theory Spec2Isabelle
  imports Complex_Main "HOL-Library.Sublist" "HOL-Library.AList" "HOL-Library.Multiset"
begin

section \<open>JavaScript strings\<close>

text \<open>
  A JavaScript string is a sequence of UTF-16 code units. Every string operation of the
  source (\<open>split\<close>, \<open>join\<close>, \<open>trim\<close>, \<open>indexOf\<close>, the regular
  expressions) works on code units, so a string is modelled as the list of its code units,
  each a natural number. \<open>js\<close> turns an ASCII literal into such a list.
\<close>

type_synonym jsstring = "nat list"

definition js :: "string \<Rightarrow> jsstring" where
  "js s = map of_char s"

text \<open>
  The class \<open>\s\<close> of a JavaScript regular expression, which is also what
  \<open>String.prototype.trim\<close> strips: WhiteSpace and LineTerminator of ECMAScript
  (TAB, LF, VT, FF, CR, SP, NBSP, U+1680, U+2000..U+200A, U+2028, U+2029, U+202F, U+205F,
  U+3000, U+FEFF).
\<close>

definition isWhitespace :: "nat \<Rightarrow> bool" where
  "isWhitespace c \<longleftrightarrow>
     c = 9 \<or> c = 10 \<or> c = 11 \<or> c = 12 \<or> c = 13 \<or> c = 32 \<or> c = 160 \<or> c = 5760 \<or>
     (8192 \<le> c \<and> c \<le> 8202) \<or> c = 8232 \<or> c = 8233 \<or> c = 8239 \<or> c = 8287 \<or>
     c = 12288 \<or> c = 65279"

abbreviation COMMA :: nat where "COMMA \<equiv> 44"
abbreviation PERIOD :: nat where "PERIOD \<equiv> 46"
abbreviation LPAREN :: nat where "LPAREN \<equiv> 40"
abbreviation RPAREN :: nat where "RPAREN \<equiv> 41"
abbreviation LBRACKET :: nat where "LBRACKET \<equiv> 91"
abbreviation RBRACKET :: nat where "RBRACKET \<equiv> 93"
abbreviation SPACE :: nat where "SPACE \<equiv> 32"
abbreviation COLON :: nat where "COLON \<equiv> 58"

text \<open>\<open>s.trim()\<close>: strip the whitespace at both ends.\<close>

definition trimStart :: "jsstring \<Rightarrow> jsstring" where
  "trimStart s = dropWhile isWhitespace s"

definition trimEnd :: "jsstring \<Rightarrow> jsstring" where
  "trimEnd s = rev (dropWhile isWhitespace (rev s))"

definition trim :: "jsstring \<Rightarrow> jsstring" where
  "trim s = trimEnd (trimStart s)"

text \<open>
  \<open>findSub sep s\<close> is the leftmost occurrence of \<open>sep\<close> in \<open>s\<close>: the text before it
  and the text after it. It is what \<open>indexOf\<close>, \<open>includes\<close> and \<open>split\<close> with a
  string separator search for.
\<close>

fun findSub :: "jsstring \<Rightarrow> jsstring \<Rightarrow> (jsstring \<times> jsstring) option" where
  "findSub sep [] = (if sep = [] then Some ([], []) else None)"
| "findSub sep (c # cs) =
     (if prefix sep (c # cs) then Some ([], drop (length sep) (c # cs))
      else (case findSub sep cs of
              None \<Rightarrow> None
            | Some (before, after) \<Rightarrow> Some (c # before, after)))"

definition includesStr :: "jsstring \<Rightarrow> jsstring \<Rightarrow> bool" where
  "includesStr s sub \<longleftrightarrow> findSub sub s \<noteq> None"

lemma findSub_length:
  "findSub sep s = Some (b, a) \<Longrightarrow> length b + length sep + length a = length s"
proof (induction s arbitrary: b)
  case Nil
  then show ?case by (simp split: if_splits)
next
  case (Cons c cs)
  show ?case
  proof (cases "prefix sep (c # cs)")
    case True
    then have "length sep \<le> length (c # cs)" by (rule prefix_length_le)
    with True Cons.prems show ?thesis by auto
  next
    case False
    with Cons.prems obtain b' where "findSub sep cs = Some (b', a)" and "b = c # b'"
      by (auto split: option.splits)
    with Cons.IH [of b'] show ?thesis by simp
  qed
qed

text \<open>
  \<open>s.split(sep)\<close> with a string separator. With a non-empty separator the pieces are
  the texts between the successive leftmost occurrences, found from left to right without
  overlap; with the empty separator the pieces are the single code units. The test for the
  empty separator in \<open>splitNonEmpty\<close> is there for termination only.
\<close>

function splitNonEmpty :: "jsstring \<Rightarrow> jsstring \<Rightarrow> jsstring list" where
  "splitNonEmpty sep s =
     (if sep = [] then [s]
      else (case findSub sep s of
              None \<Rightarrow> [s]
            | Some (before, after) \<Rightarrow> before # splitNonEmpty sep after))"
  by pat_completeness auto
termination
proof (relation "measure (\<lambda>(sep, s). length s)")
  fix sep s :: jsstring and x before after
  assume "sep \<noteq> []" and "findSub sep s = Some x" and "(before, after) = x"
  then have "length before + length sep + length after = length s"
    by (simp add: findSub_length)
  with \<open>sep \<noteq> []\<close> show "((sep, after), (sep, s)) \<in> measure (\<lambda>(sep, s). length s)"
    by (cases sep) auto
qed simp

declare splitNonEmpty.simps [simp del]

definition split :: "jsstring \<Rightarrow> jsstring \<Rightarrow> jsstring list" where
  "split s sep = (if sep = [] then map (\<lambda>c. [c]) s else splitNonEmpty sep s)"

text \<open>\<open>pieces.join("")\<close>.\<close>

definition join :: "jsstring list \<Rightarrow> jsstring" where
  "join pieces = concat pieces"

section \<open>Regular-expression replacement\<close>

text \<open>
  \<open>s.replace(/re/g, r)\<close> scans \<open>s\<close> from the left. Where the expression matches at
  the current position, the match is replaced and the scan goes on behind the match;
  elsewhere one code unit is copied. A matcher gives, for the text at the current position,
  the replacement and the text behind the match, or \<open>None\<close>. Every expression of the
  source matches at least one code unit (lemma \<open>matchers_consume\<close> below), so the scan
  always takes the first branch on a match.
\<close>

type_synonym matcher = "jsstring \<Rightarrow> (jsstring \<times> jsstring) option"

function replaceAll :: "matcher \<Rightarrow> jsstring \<Rightarrow> jsstring" where
  "replaceAll m [] = []"
| "replaceAll m (c # cs) =
     (case m (c # cs) of
        Some (r, rest) \<Rightarrow>
          (if length rest < length (c # cs) then r @ replaceAll m rest
           else c # replaceAll m cs)
      | None \<Rightarrow> c # replaceAll m cs)"
  by pat_completeness auto
termination
  by (relation "measure (\<lambda>(m, s). length s)") auto

declare replaceAll.simps(2) [simp del]

text \<open>\<open>/,\s*,/g\<close> replaced by \<open>','\<close>.\<close>

fun commaComma :: matcher where
  "commaComma (c # cs) =
     (if c = COMMA then
        (case dropWhile isWhitespace cs of
           d # ds \<Rightarrow> if d = COMMA then Some ([COMMA], ds) else None
         | [] \<Rightarrow> None)
      else None)"
| "commaComma [] = None"

text \<open>\<open>/\s{2,}/g\<close> replaced by \<open>' '\<close>.\<close>

fun spaces2 :: matcher where
  "spaces2 (c # d # ds) =
     (if isWhitespace c \<and> isWhitespace d then Some ([SPACE], dropWhile isWhitespace ds)
      else None)"
| "spaces2 _ = None"

text \<open>\<open>/\(\s*,\s*/g\<close> replaced by \<open>'('\<close>.\<close>

fun parenComma :: matcher where
  "parenComma (c # cs) =
     (if c = LPAREN then
        (case dropWhile isWhitespace cs of
           d # ds \<Rightarrow> if d = COMMA then Some ([LPAREN], dropWhile isWhitespace ds) else None
         | [] \<Rightarrow> None)
      else None)"
| "parenComma [] = None"

text \<open>\<open>/,\s*\)/g\<close> replaced by \<open>')'\<close>.\<close>

fun commaParen :: matcher where
  "commaParen (c # cs) =
     (if c = COMMA then
        (case dropWhile isWhitespace cs of
           d # ds \<Rightarrow> if d = RPAREN then Some ([RPAREN], ds) else None
         | [] \<Rightarrow> None)
      else None)"
| "commaParen [] = None"

text \<open>\<open>/\(\s*\)/g\<close> and \<open>/\[\s*\]/g\<close>, replaced by the empty string.\<close>

fun emptyGroup :: "nat \<Rightarrow> nat \<Rightarrow> matcher" where
  "emptyGroup opening closing (c # cs) =
     (if c = opening then
        (case dropWhile isWhitespace cs of
           d # ds \<Rightarrow> if d = closing then Some ([], ds) else None
         | [] \<Rightarrow> None)
      else None)"
| "emptyGroup opening closing [] = None"

text \<open>\<open>/\s+([.,])/g\<close> replaced by \<open>'$1'\<close>, the punctuation mark alone.\<close>

fun spacePunct :: matcher where
  "spacePunct (c # cs) =
     (if isWhitespace c then
        (case dropWhile isWhitespace cs of
           d # ds \<Rightarrow> if d = PERIOD \<or> d = COMMA then Some ([d], ds) else None
         | [] \<Rightarrow> None)
      else None)"
| "spacePunct [] = None"

section \<open>The selective renderer\<close>

text \<open>
  The \<open>Reference\<close> interface of the types module. An optional field (\<open>f?: T\<close>) is
  an \<open>option\<close>, \<open>None\<close> when the field is absent. A \<open>number\<close> is a rational.
  The field \<open>id\<close> is written \<open>id'\<close>, since \<open>id\<close> is the identity function of HOL.
\<close>

record Reference =
  id' :: rat
  title :: jsstring
  authors :: jsstring
  year :: jsstring
  journal :: jsstring
  url :: jsstring
  grade :: "jsstring option"
  lang :: "jsstring option"
  snippet :: "jsstring option"
  citationReason :: "jsstring option"
  relatedCitedSentence :: "jsstring option"
  originalSourceSentence :: "jsstring option"
  sourceParagraph :: "jsstring option"
  sourceSection :: "jsstring option"
  isSelected :: "bool option"
  citationTag :: "jsstring option"

text \<open>JavaScript truthiness of an optional boolean and of an optional string.\<close>

fun truthyBool :: "bool option \<Rightarrow> bool" where
  "truthyBool None = False"
| "truthyBool (Some b) = b"

fun truthyString :: "jsstring option \<Rightarrow> bool" where
  "truthyString None = False"
| "truthyString (Some s) = (s \<noteq> [])"

text \<open>
  The body of the \<open>forEach\<close> callback of \<open>getFilteredCitedText\<close>: the new value of
  \<open>filteredText\<close> after one reference.
\<close>

definition removeTag :: "jsstring \<Rightarrow> 'a Reference_scheme \<Rightarrow> jsstring" where
  "removeTag filteredText ref =
     (if \<not> truthyBool (isSelected ref) \<and> truthyString (citationTag ref) then
        (let tag = trim (the (citationTag ref))
         in if tag \<noteq> [] then join (split filteredText tag) else filteredText)
      else filteredText)"

text \<open>The chain of replacements that follows the loop, in the order of the source.\<close>

definition cleanup :: "jsstring \<Rightarrow> jsstring" where
  "cleanup t =
     trim
       (replaceAll spacePunct
         (replaceAll (emptyGroup LBRACKET RBRACKET)
           (replaceAll (emptyGroup LPAREN RPAREN)
             (replaceAll commaParen
               (replaceAll parenComma
                 (replaceAll spaces2
                   (replaceAll commaComma t)))))))"

definition getFilteredCitedText :: "jsstring \<Rightarrow> 'a Reference_scheme list \<Rightarrow> jsstring" where
  "getFilteredCitedText citedText references = cleanup (foldl removeTag citedText references)"

section \<open>The word diff\<close>

text \<open>
  \<open>s.split(/(\s+)/)\<close>: the pieces between the whitespace runs and, because of the capturing
  group, the runs themselves, in order. The first and the last piece are empty when the
  text starts or ends with whitespace.
\<close>

function splitWhitespace :: "jsstring \<Rightarrow> jsstring list" where
  "splitWhitespace s =
     (let word = takeWhile (\<lambda>c. \<not> isWhitespace c) s;
          rest = dropWhile (\<lambda>c. \<not> isWhitespace c) s
      in if rest = [] then [word]
         else word # takeWhile isWhitespace rest # splitWhitespace (dropWhile isWhitespace rest))"
  by pat_completeness auto
termination
proof (relation "measure length")
  fix s word rest :: jsstring
  assume rest: "rest = dropWhile (\<lambda>c. \<not> isWhitespace c) s" and ne: "rest \<noteq> []"
  from ne obtain c cs where c: "rest = c # cs" by (cases rest) auto
  from ne rest have "\<not> \<not> isWhitespace (hd rest)"
    using hd_dropWhile [of "\<lambda>c. \<not> isWhitespace c" s] by blast
  with c have "isWhitespace c" by simp
  with c have "length (dropWhile isWhitespace rest) < length rest"
    by (simp add: length_dropWhile_le le_imp_less_Suc)
  moreover from rest have "length rest \<le> length s"
    by (simp add: length_dropWhile_le)
  ultimately show "(dropWhile isWhitespace rest, s) \<in> measure length" by simp
qed simp

declare splitWhitespace.simps [simp del]

text \<open>
  A rendered \<open><span>\<close>: its class and its text. \<open>Unstyled\<close> is a span without
  \<open>className\<close>, \<open>Unchanged\<close> the span of class \<open>text-slate-600\<close>,
  \<open>Added\<close> the highlighted span (\<open>bg-emerald-100 ...\<close>). The single element that
  the early return gives is the one-element list.
\<close>

datatype wordClass = Unstyled | Unchanged | Added

type_synonym span = "wordClass \<times> jsstring"

text \<open>
  \<open>stripHtml\<close> reads \<open>doc.body.textContent\<close> of the document that the browser's
  \<open>DOMParser\<close> builds; the parser is the parameter \<open>textContent\<close>.
\<close>

definition stripHtml :: "(jsstring \<Rightarrow> jsstring option) \<Rightarrow> jsstring \<Rightarrow> jsstring" where
  "stripHtml textContent html = (case textContent html of None \<Rightarrow> [] | Some t \<Rightarrow> t)"

definition classify :: "jsstring list \<Rightarrow> jsstring \<Rightarrow> span" where
  "classify oldWords word =
     (if trim word = [] then (Unstyled, word)
      else if word \<in> set oldWords then (Unchanged, word)
      else (Added, word))"

definition getWordDiff :: "(jsstring \<Rightarrow> jsstring option) \<Rightarrow> jsstring \<Rightarrow> jsstring \<Rightarrow> span list" where
  "getWordDiff textContent oldStr newStr =
     (if oldStr = [] \<or> newStr = [] then [(Unstyled, newStr)]
      else
        (let cleanOld = stripHtml textContent oldStr;
             cleanNew = stripHtml textContent newStr;
             oldWords = splitWhitespace cleanOld;
             newWords = splitWhitespace cleanNew
         in map (classify oldWords) newWords))"

section \<open>Sessions and the selection toggle\<close>

record 'r CitationResult =
  originalText :: jsstring
  citedText :: jsstring
  references :: "'r list"
  groundingUrls :: "(jsstring \<times> jsstring) list"

record 'r SavedCitation = "'r CitationResult" +
  timestamp :: rat

text \<open>
  The updater that \<open>toggleReferenceSelection\<close> passes to \<open>setSavedCitations\<close>, applied
  to the previous history \<open>prev\<close>. \<open>!ref.isSelected\<close> is the negated truthiness.
\<close>

definition toggleRef :: "rat \<Rightarrow> 'a Reference_scheme \<Rightarrow> 'a Reference_scheme" where
  "toggleRef refId ref =
     (if id' ref = refId then ref\<lparr>isSelected := Some (\<not> truthyBool (isSelected ref))\<rparr> else ref)"

definition toggleReferenceSelection ::
  "rat \<Rightarrow> rat \<Rightarrow> ('a Reference_scheme, 'b) SavedCitation_scheme list
     \<Rightarrow> ('a Reference_scheme, 'b) SavedCitation_scheme list" where
  "toggleReferenceSelection sessionTimestamp refId prev =
     map (\<lambda>session.
            if timestamp session = sessionTimestamp
            then session\<lparr>references := map (toggleRef refId) (references session)\<rparr>
            else session) prev"

section \<open>Parsing the response\<close>

text \<open>
  What \<open>JSON.parse\<close> gives: \<open>rawReferences\<close> is typed \<open>any[]\<close>, so every JSON
  value has to be expected. An object is the list of its properties in insertion order.
\<close>

datatype json =
    JNull
  | JBool bool
  | JNumber rat
  | JString jsstring
  | JArray "json list"
  | JObject "(jsstring \<times> json) list"

datatype error = TypeError

text \<open>
  Reading a property: \<open>None\<close> is \<open>undefined\<close>. The source reads \<open>title\<close>,
  \<open>originalSourceSentence\<close>, \<open>citationTag\<close> and \<open>id\<close>, which no string,
  number, boolean or array has. Reading a property of \<open>null\<close> throws; \<open>keepRef\<close>
  below makes that case apart.
\<close>

fun getProp :: "json \<Rightarrow> jsstring \<Rightarrow> json option" where
  "getProp (JObject props) k = map_of props k"
| "getProp _ k = None"

fun truthy :: "json option \<Rightarrow> bool" where
  "truthy None = False"
| "truthy (Some JNull) = False"
| "truthy (Some (JBool b)) = b"
| "truthy (Some (JNumber n)) = (n \<noteq> 0)"
| "truthy (Some (JString s)) = (s \<noteq> [])"
| "truthy (Some (JArray xs)) = True"
| "truthy (Some (JObject props)) = True"

text \<open>The callback of \<open>filter\<close>: \<open>ref.title && ref.originalSourceSentence && ref.citationTag\<close>.\<close>

fun keepRef :: "json \<Rightarrow> error + bool" where
  "keepRef JNull = Inl TypeError"
| "keepRef ref =
     Inr (truthy (getProp ref (js ''title'')) \<and>
          truthy (getProp ref (js ''originalSourceSentence'')) \<and>
          truthy (getProp ref (js ''citationTag'')))"

text \<open>\<open>rawReferences.filter(...)\<close>: an exception of the callback ends the whole call.\<close>

fun filterRefs :: "json list \<Rightarrow> error + json list" where
  "filterRefs [] = Inr []"
| "filterRefs (ref # refs) =
     (case keepRef ref of
        Inl e \<Rightarrow> Inl e
      | Inr keep \<Rightarrow>
          (case filterRefs refs of
             Inl e \<Rightarrow> Inl e
           | Inr kept \<Rightarrow> Inr (if keep then ref # kept else kept)))"

text \<open>
  The callback of \<open>map\<close>: \<open>{...ref, isSelected: true, id: ref.id || Math.floor(Math.random() * 1000)}\<close>.
  Only objects pass the filter, so only an object is spread. The expression
  \<open>Math.floor(Math.random() * 1000)\<close> draws a random double and multiplies and rounds
  in double arithmetic; neither is computed here. \<open>randomId k\<close> stands for the value of
  the whole expression at its \<open>k\<close>-th evaluation, an integer since it is a result of
  \<open>Math.floor\<close>, and \<open>n\<close> is the number of evaluations made so far. The expression
  is evaluated only where \<open>ref.id\<close> is falsy.
\<close>

fun spread :: "json \<Rightarrow> (jsstring \<times> json) list" where
  "spread (JObject props) = props"
| "spread _ = []"

definition withSelectionAndId :: "json \<Rightarrow> json \<Rightarrow> json" where
  "withSelectionAndId ref newId =
     JObject (AList.update (js ''id'') newId
               (AList.update (js ''isSelected'') (JBool True) (spread ref)))"

fun normalizeRefs :: "(nat \<Rightarrow> int) \<Rightarrow> nat \<Rightarrow> json list \<Rightarrow> json list" where
  "normalizeRefs randomId n [] = []"
| "normalizeRefs randomId n (ref # refs) =
     (if truthy (getProp ref (js ''id''))
      then withSelectionAndId ref (the (getProp ref (js ''id''))) # normalizeRefs randomId n refs
      else withSelectionAndId ref (JNumber (of_int (randomId n)))
             # normalizeRefs randomId (Suc n) refs)"

text \<open>\<open>text.indexOf(c)\<close>, \<open>text.lastIndexOf(c)\<close> for a single code unit, and \<open>text.substring(a, b)\<close>.\<close>

definition indexOf :: "jsstring \<Rightarrow> nat \<Rightarrow> int" where
  "indexOf text c =
     (if c \<in> set text then int (length (takeWhile (\<lambda>x. x \<noteq> c) text)) else - 1)"

definition lastIndexOf :: "jsstring \<Rightarrow> nat \<Rightarrow> int" where
  "lastIndexOf text c =
     (if c \<in> set text
      then int (length text) - 1 - int (length (takeWhile (\<lambda>x. x \<noteq> c) (rev text)))
      else - 1)"

definition substring :: "jsstring \<Rightarrow> int \<Rightarrow> int \<Rightarrow> jsstring" where
  "substring text a b =
     (let n = int (length text);
          a' = max 0 (min a n);
          b' = max 0 (min b n);
          lo = nat (min a' b');
          hi = nat (max a' b')
      in take (hi - lo) (drop lo text))"

definition extractJsonArray :: "jsstring \<Rightarrow> jsstring option" where
  "extractJsonArray text =
     (let firstBracket = indexOf text LBRACKET;
          lastBracket = lastIndexOf text RBRACKET
      in if firstBracket \<noteq> - 1 \<and> lastBracket \<noteq> - 1 \<and> lastBracket > firstBracket
         then Some (substring text firstBracket (lastBracket + 1))
         else None)"

text \<open>
  \<open>s.replace(/re/, r)\<close> without the \<open>g\<close> flag replaces the leftmost match only.
  \<open>/Cited Text[:\s]*/i\<close> matches the ten code units of the label, the letters in either
  case, and then the longest run of colons and whitespace.
\<close>

fun replaceFirst :: "matcher \<Rightarrow> jsstring \<Rightarrow> jsstring" where
  "replaceFirst m [] = []"
| "replaceFirst m (c # cs) =
     (case m (c # cs) of
        Some (r, rest) \<Rightarrow> r @ rest
      | None \<Rightarrow> c # replaceFirst m cs)"

definition lowerAscii :: "nat \<Rightarrow> nat" where
  "lowerAscii c = (if 65 \<le> c \<and> c \<le> 90 then c + 32 else c)"

definition citedTextLabel :: matcher where
  "citedTextLabel s =
     (if 10 \<le> length s \<and> map lowerAscii (take 10 s) = js ''cited text''
      then Some ([], dropWhile (\<lambda>c. c = COLON \<or> isWhitespace c) (drop 10 s))
      else None)"

definition REFERENCES_START :: jsstring where
  "REFERENCES_START = js ''---REFERENCES_START---''"

text \<open>The message that stands for an empty narrative (Korean, 18 code units).\<close>

definition noResultMessage :: jsstring where
  "noResultMessage =
     [48516, 49437, 32, 44208, 44284, 47484, 32, 49373, 49457, 54616, 51648, 32,
      47803, 54664, 49845, 45768, 45796, 46]"

text \<open>
  \<open>try { rawReferences = JSON.parse(jsonContent); } catch (e) { console.error(e); }\<close>:
  \<open>JSON_parse\<close> is the built-in, \<open>None\<close> where it throws; \<open>rawReferences\<close> is
  \<open>[]\<close> before.
\<close>

definition tryParse :: "(jsstring \<Rightarrow> json option) \<Rightarrow> jsstring \<Rightarrow> json" where
  "tryParse JSON_parse jsonContent =
     (case JSON_parse jsonContent of Some v \<Rightarrow> v | None \<Rightarrow> JArray [])"

text \<open>
  The two branches of \<open>processCitations\<close> that fill \<open>citedText\<close> and
  \<open>rawReferences\<close>. A missing \<open>parts[1]\<close> or \<open>[0]\<close> would be \<open>undefined\<close>,
  and the call on it a \<open>TypeError\<close>.
\<close>

definition parseResponse ::
  "(jsstring \<Rightarrow> json option) \<Rightarrow> jsstring \<Rightarrow> error + (jsstring \<times> json)" where
  "parseResponse JSON_parse fullResponse =
     (if includesStr fullResponse REFERENCES_START then
        (case split fullResponse REFERENCES_START of
           part0 # part1 # others \<Rightarrow>
             (let cited = trim (replaceFirst citedTextLabel part0)
              in case extractJsonArray part1 of
                   Some jsonContent \<Rightarrow>
                     if jsonContent \<noteq> [] then Inr (cited, tryParse JSON_parse jsonContent)
                     else Inr (cited, JArray [])
                 | None \<Rightarrow> Inr (cited, JArray []))
         | _ \<Rightarrow> Inl TypeError)
      else
        (case extractJsonArray fullResponse of
           Some jsonContent \<Rightarrow>
             if jsonContent \<noteq> [] then
               (case split fullResponse jsonContent of
                  part0 # others \<Rightarrow>
                    Inr (trim (replaceFirst citedTextLabel part0), tryParse JSON_parse jsonContent)
                | [] \<Rightarrow> Inl TypeError)
             else Inr (trim fullResponse, JArray [])
         | None \<Rightarrow> Inr (trim fullResponse, JArray [])))"

text \<open>
  \<open>processCitations\<close> from the point where the response of the model has arrived:
  \<open>responseText\<close> is \<open>response.text\<close>, \<open>None\<close> when it is undefined. The result is
  the value the promise resolves to, or the error it rejects with. The local variable
  \<open>citedText\<close> is written \<open>cited\<close>, since \<open>citedText\<close> is also the field.
\<close>

definition processCitations ::
  "(jsstring \<Rightarrow> json option) \<Rightarrow> (nat \<Rightarrow> int) \<Rightarrow> jsstring \<Rightarrow> jsstring option
     \<Rightarrow> error + json CitationResult" where
  "processCitations JSON_parse randomId input responseText =
     (let fullResponse = (case responseText of None \<Rightarrow> [] | Some t \<Rightarrow> t)
      in case parseResponse JSON_parse fullResponse of
           Inl e \<Rightarrow> Inl e
         | Inr (cited, rawReferences) \<Rightarrow>
             (case (case rawReferences of
                      JArray refs \<Rightarrow> map_sum (\<lambda>e. e) (normalizeRefs randomId 0) (filterRefs refs)
                    | _ \<Rightarrow> Inr []) of
                Inl e \<Rightarrow> Inl e
              | Inr refs \<Rightarrow>
                  Inr \<lparr>originalText = input,
                       citedText = (if cited \<noteq> [] then cited else noResultMessage),
                       references = refs,
                       groundingUrls = []\<rparr>))"

section \<open>The bracket scan of the specification\<close>

text \<open>
  Modelled from the spec: the balanced-bracket scan of its section 4.1, which the source
  does not have; it is here to be compared with \<open>extractJsonArray\<close>. The scan starts at
  the first unescaped \<open>[\<close> that is not inside a string literal; from there a depth counter
  goes up on \<open>[\<close> and \<open>{\<close> and down on \<open>]\<close> and \<open>}\<close> outside string literals,
  an unescaped quote toggles the string state, and the span ends where the depth is zero
  again. Without such a position there is no span.
\<close>

abbreviation QUOTE :: nat where "QUOTE \<equiv> 34"
abbreviation BACKSLASH :: nat where "BACKSLASH \<equiv> 92"
abbreviation LBRACE :: nat where "LBRACE \<equiv> 123"
abbreviation RBRACE :: nat where "RBRACE \<equiv> 125"

fun specArrayStart :: "bool \<Rightarrow> jsstring \<Rightarrow> jsstring option" where
  "specArrayStart inString [] = None"
| "specArrayStart inString [c] = (if c = LBRACKET \<and> \<not> inString then Some [c] else None)"
| "specArrayStart inString (c # d # ds) =
     (if c = BACKSLASH then specArrayStart inString ds
      else if c = QUOTE then specArrayStart (\<not> inString) (d # ds)
      else if c = LBRACKET \<and> \<not> inString then Some (c # d # ds)
      else specArrayStart inString (d # ds))"

fun specSpan :: "int \<Rightarrow> bool \<Rightarrow> jsstring \<Rightarrow> jsstring option" where
  "specSpan depth inString [] = None"
| "specSpan depth inString [c] =
     (if \<not> inString \<and> (c = RBRACKET \<or> c = RBRACE) \<and> depth - 1 = 0 then Some [c] else None)"
| "specSpan depth inString (c # d # ds) =
     (if c = BACKSLASH then map_option (\<lambda>sp. c # d # sp) (specSpan depth inString ds)
      else if c = QUOTE then map_option ((#) c) (specSpan depth (\<not> inString) (d # ds))
      else if inString then map_option ((#) c) (specSpan depth inString (d # ds))
      else if c = LBRACKET \<or> c = LBRACE then
        map_option ((#) c) (specSpan (depth + 1) False (d # ds))
      else if c = RBRACKET \<or> c = RBRACE then
        (if depth - 1 = 0 then Some [c]
         else map_option ((#) c) (specSpan (depth - 1) False (d # ds)))
      else map_option ((#) c) (specSpan depth False (d # ds)))"

definition specBalancedScan :: "jsstring \<Rightarrow> jsstring option" where
  "specBalancedScan text =
     (case specArrayStart False text of
        None \<Rightarrow> None
      | Some fromBracket \<Rightarrow> specSpan 0 False fromBracket)"

section \<open>Predicates on texts and reference lists\<close>

text \<open>
  \<open>matchesIn m s\<close>: the expression of the matcher \<open>m\<close> matches somewhere in \<open>s\<close>.
  A text is clean when none of the seven expressions of the cleanup chain matches in it.
  \<open>removedTags\<close> lists, in order, the tags that the loop of the renderer removes: the
  trimmed, non-empty tags of the references whose \<open>isSelected\<close> is falsy.
\<close>

fun matchesIn :: "matcher \<Rightarrow> jsstring \<Rightarrow> bool" where
  "matchesIn m [] = False"
| "matchesIn m (c # cs) = (m (c # cs) \<noteq> None \<or> matchesIn m cs)"

definition cleanText :: "jsstring \<Rightarrow> bool" where
  "cleanText s \<longleftrightarrow>
     \<not> (matchesIn commaComma s \<or> matchesIn spaces2 s \<or> matchesIn parenComma s \<or>
        matchesIn commaParen s \<or> matchesIn (emptyGroup LPAREN RPAREN) s \<or>
        matchesIn (emptyGroup LBRACKET RBRACKET) s \<or> matchesIn spacePunct s)"

definition removedTags :: "'a Reference_scheme list \<Rightarrow> jsstring list" where
  "removedTags refs =
     filter (\<lambda>tag. tag \<noteq> [])
       (map (\<lambda>ref. trim (the (citationTag ref)))
          (filter (\<lambda>ref. \<not> truthyBool (isSelected ref) \<and> truthyString (citationTag ref))
             refs))"

text \<open>
  \<open>stripTag tag t\<close> is \<open>t.split(tag).join("")\<close>, the removal the loop makes for one
  tag. A tag is delimited by \<open>opn\<close> and \<open>cls\<close> when it starts with \<open>opn\<close>, ends
  with \<open>cls\<close> and has neither in between, as \<open>[1]\<close> for the square brackets and
  \<open>(Lee, 2023)\<close> for the parentheses. A text is flat for the two when each \<open>opn\<close> in
  it is followed by a \<open>cls\<close> before the next \<open>opn\<close>: its groups are closed and not
  nested.
\<close>

definition stripTag :: "jsstring \<Rightarrow> jsstring \<Rightarrow> jsstring" where
  "stripTag tag t = join (split t tag)"

fun delimitedTag :: "nat \<Rightarrow> nat \<Rightarrow> jsstring \<Rightarrow> bool" where
  "delimitedTag opn cls [] = False"
| "delimitedTag opn cls (x # xs) =
     (x = opn \<and> xs \<noteq> [] \<and> last xs = cls \<and>
      opn \<notin> set (butlast xs) \<and> cls \<notin> set (butlast xs))"

function flatText :: "nat \<Rightarrow> nat \<Rightarrow> jsstring \<Rightarrow> bool" where
  "flatText opn cls t =
     (case dropWhile (\<lambda>x. x \<noteq> opn) t of
        [] \<Rightarrow> True
      | x # after \<Rightarrow>
          (case dropWhile (\<lambda>y. y \<noteq> cls \<and> y \<noteq> opn) after of
             [] \<Rightarrow> False
           | y # rest \<Rightarrow> y = cls \<and> flatText opn cls rest))"
  by pat_completeness auto
termination
proof (relation "measure (\<lambda>(opn, cls, t). length t)")
  fix opn cls :: nat and t after rest :: jsstring and x y
  assume a: "dropWhile (\<lambda>x. x \<noteq> opn) t = x # after"
    and b: "dropWhile (\<lambda>y. y \<noteq> cls \<and> y \<noteq> opn) after = y # rest"
  have "length (x # after) \<le> length t"
    unfolding a [symmetric] by (rule length_dropWhile_le)
  moreover have "length (y # rest) \<le> length after"
    unfolding b [symmetric] by (rule length_dropWhile_le)
  ultimately show "((opn, cls, rest), (opn, cls, t))
      \<in> measure (\<lambda>(opn, cls, t). length t)" by simp
qed simp

declare flatText.simps [simp del]

section \<open>Example values\<close>

text \<open>A reference without \<open>isSelected\<close>, and a session with two references.\<close>

definition exampleRef :: Reference where
  "exampleRef =
     \<lparr>id' = 1, title = js ''T'', authors = js ''A'', year = js ''2024'', journal = js ''J'',
      url = js ''u'', grade = None, lang = None, snippet = None, citationReason = None,
      relatedCitedSentence = None, originalSourceSentence = Some (js ''S''),
      sourceParagraph = None, sourceSection = None, isSelected = None,
      citationTag = Some (js ''[1]'')\<rparr>"

definition exampleSession :: "Reference SavedCitation" where
  "exampleSession =
     \<lparr>originalText = js ''o'', citedText = js ''c [1]'',
      references = [exampleRef, exampleRef\<lparr>id' := 2, isSelected := Some True\<rparr>],
      groundingUrls = [], timestamp = 100\<rparr>"

text \<open>Decoded records: a complete one, one with a snippet but no source sentence, one without id.\<close>

definition exampleRecord :: json where
  "exampleRecord =
     JObject [(js ''id'', JNumber 1), (js ''title'', JString (js ''T'')),
              (js ''originalSourceSentence'', JString (js ''S'')),
              (js ''citationTag'', JString (js ''[1]''))]"

definition snippetRecord :: json where
  "snippetRecord =
     JObject [(js ''id'', JNumber 2), (js ''title'', JString (js ''T'')),
              (js ''snippet'', JString (js ''S'')),
              (js ''citationTag'', JString (js ''[2]''))]"


section \<open>Lemmas on the string operations\<close>

lemma findSub_None_iff: "findSub sep s = None \<longleftrightarrow> \<not> sublist sep s"
  by (induction s) (auto simp: sublist_Cons_right split: option.splits)

lemma findSub_decomp: "findSub sep s = Some (b, a) \<Longrightarrow> s = b @ sep @ a"
proof (induction s arbitrary: b)
  case Nil
  then show ?case by (simp split: if_splits)
next
  case (Cons c cs)
  show ?case
  proof (cases "prefix sep (c # cs)")
    case True
    with Cons.prems show ?thesis by (auto simp: prefix_def)
  next
    case False
    with Cons.prems obtain b' where b': "findSub sep cs = Some (b', a)" "b = c # b'"
      by (auto split: option.splits)
    with Cons.IH[OF b'(1)] show ?thesis by simp
  qed
qed

lemma findSub_before: "findSub sep s = Some (b, a) \<Longrightarrow> sep \<noteq> [] \<Longrightarrow> \<not> sublist sep b"
proof (induction s arbitrary: b)
  case Nil
  then show ?case by (simp split: if_splits)
next
  case (Cons c cs)
  show ?case
  proof (cases "prefix sep (c # cs)")
    case True
    with Cons.prems show ?thesis by auto
  next
    case False
    with Cons.prems obtain b' where b': "findSub sep cs = Some (b', a)" "b = c # b'"
      by (auto split: option.splits)
    from findSub_decomp[OF b'(1)] have "prefix (c # b') (c # cs)" by simp
    with False have "\<not> prefix sep (c # b')"
      using prefix_order.trans by blast
    with Cons.IH[OF b'(1) Cons.prems(2)] b'(2) show ?thesis
      by (simp add: sublist_Cons_right)
  qed
qed

lemma split_pieces_free:
  "sep \<noteq> [] \<Longrightarrow> piece \<in> set (splitNonEmpty sep s) \<Longrightarrow> \<not> sublist sep piece"
proof (induction sep s rule: splitNonEmpty.induct)
  case (1 sep s)
  show ?case
  proof (cases "findSub sep s")
    case None
    with 1 show ?thesis by (simp add: splitNonEmpty.simps[of sep s] findSub_None_iff)
  next
    case (Some ba)
    obtain b a where ba: "ba = (b, a)" by (cases ba)
    with 1 Some show ?thesis
      by (auto simp: splitNonEmpty.simps[of sep s] findSub_before)
  qed
qed

lemma join_single: "concat (map (\<lambda>c. [c]) s) = s"
  by (induction s) auto

lemma removeTag_absent:
  "isSelected ref = None \<Longrightarrow> removeTag t ref = removeTag t (ref\<lparr>isSelected := Some False\<rparr>)"
  by (simp add: removeTag_def)

lemma toggleRef_frame:
  "(toggleRef refId r)\<lparr>isSelected := isSelected r\<rparr> = r"
  by (simp add: toggleRef_def)

lemma toggleRef_hit:
  "id' r = refId \<Longrightarrow> isSelected (toggleRef refId r) = Some (\<not> truthyBool (isSelected r))"
  by (simp add: toggleRef_def)

lemma toggleRef_miss: "id' r \<noteq> refId \<Longrightarrow> toggleRef refId r = r"
  by (simp add: toggleRef_def)

section \<open>Lemmas on the renderer\<close>

text \<open>
  Each of the seven matchers consumes at least one code unit, so the length test in
  \<open>replaceAll\<close> never fails for them: it is there for the termination of the scan.
\<close>

lemma dropWhile_Cons_length:
  "dropWhile P xs = d # ds \<Longrightarrow> length ds < length xs"
  using length_dropWhile_le [of P xs] by simp

lemma matchers_consume:
  assumes "m \<in> {commaComma, spaces2, parenComma, commaParen, emptyGroup LPAREN RPAREN,
                 emptyGroup LBRACKET RBRACKET, spacePunct}"
    and "m s = Some (r, rest)"
  shows "length rest < length s"
proof (cases s)
  case Nil
  with assms show ?thesis by auto
next
  case (Cons c cs)
  have le: "length (dropWhile isWhitespace xs) \<le> length xs" for xs :: jsstring
    by (rule length_dropWhile_le)
  from assms Cons show ?thesis
  proof (elim insertE emptyE)
    assume "m = spaces2"
    with assms(2) Cons obtain d ds where "cs = d # ds" "rest = dropWhile isWhitespace ds"
      by (cases cs) (auto split: if_splits)
    with Cons le [of ds] show ?thesis by simp
  next
    assume "m = parenComma"
    with assms(2) Cons obtain d ds where "dropWhile isWhitespace cs = d # ds"
      "rest = dropWhile isWhitespace ds"
      by (auto split: if_splits list.splits)
    with Cons le [of ds] dropWhile_Cons_length [of isWhitespace cs d ds] show ?thesis by simp
  qed (auto split: if_splits list.splits dest: dropWhile_Cons_length)
qed

lemma replaceAll_noMatch: "\<not> matchesIn m s \<Longrightarrow> replaceAll m s = s"
proof (induction s)
  case Nil
  show ?case by simp
next
  case (Cons c cs)
  from Cons.prems have "m (c # cs) = None" by (cases "m (c # cs)") auto
  moreover from Cons have "replaceAll m cs = cs" by simp
  ultimately show ?case by (simp add: replaceAll.simps)
qed

lemma removeTag_absent_tag:
  assumes "\<not> truthyBool (isSelected ref) \<Longrightarrow> truthyString (citationTag ref) \<Longrightarrow>
           trim (the (citationTag ref)) \<noteq> [] \<Longrightarrow> \<not> sublist (trim (the (citationTag ref))) s"
  shows "removeTag s ref = s"
proof (cases "\<not> truthyBool (isSelected ref) \<and> truthyString (citationTag ref) \<and>
              trim (the (citationTag ref)) \<noteq> []")
  case True
  with assms have "findSub (trim (the (citationTag ref))) s = None"
    by (simp add: findSub_None_iff)
  with True show ?thesis
    by (simp add: removeTag_def split_def join_def splitNonEmpty.simps [of _ s])
next
  case False
  then show ?thesis by (auto simp: removeTag_def)
qed

lemma foldl_removeTag_absent:
  "\<forall>tag \<in> set (removedTags R). \<not> sublist tag s \<Longrightarrow> foldl removeTag s R = s"
proof (induction R)
  case Nil
  show ?case by simp
next
  case (Cons ref R)
  have "removeTag s ref = s"
    using Cons.prems by (intro removeTag_absent_tag) (auto simp: removedTags_def)
  moreover have "\<forall>tag \<in> set (removedTags R). \<not> sublist tag s"
    using Cons.prems by (auto simp: removedTags_def)
  ultimately show ?case using Cons.IH by simp
qed

lemma trimStart_trimEnd_fix:
  assumes "s \<noteq> []" and "\<not> isWhitespace (hd s)"
  shows "trimStart (trimEnd s) = trimEnd s"
proof -
  from assms obtain c cs where s: "s = c # cs" and c: "\<not> isWhitespace c" by (cases s) auto
  have "dropWhile isWhitespace (rev cs @ [c]) = dropWhile isWhitespace (rev cs) @ [c] \<or>
        dropWhile isWhitespace (rev cs @ [c]) = [c]"
    using c by (simp add: dropWhile_append)
  then obtain ys where "dropWhile isWhitespace (rev s) = ys @ [c]" using s by auto
  then have "trimEnd s = c # rev ys" by (simp add: trimEnd_def)
  with c show ?thesis by (simp add: trimStart_def)
qed

lemma trimEnd_idem: "trimEnd (trimEnd s) = trimEnd s"
  by (simp add: trimEnd_def dropWhile_idem)

lemma trim_idem: "trim (trim s) = trim s"
proof (cases "trimStart s = []")
  case True
  then show ?thesis by (simp add: trim_def trimEnd_def trimStart_def [of "[]"])
next
  case False
  then have "\<not> isWhitespace (hd (trimStart s))"
    unfolding trimStart_def using hd_dropWhile by blast
  with False have "trimStart (trimEnd (trimStart s)) = trimEnd (trimStart s)"
    by (rule trimStart_trimEnd_fix)
  then show ?thesis by (simp add: trim_def trimEnd_idem)
qed

lemma cleanup_fix: "cleanText s \<Longrightarrow> trim s = s \<Longrightarrow> cleanup s = s"
  by (simp add: cleanup_def cleanText_def replaceAll_noMatch)

lemma trim_cleanup: "trim (cleanup s) = cleanup s"
  by (simp add: cleanup_def trim_idem)

section \<open>Lemmas on the removal of delimited tags\<close>

lemma delimitedTagE:
  assumes "delimitedTag opn cls tag"
  obtains body where "tag = opn # body @ [cls]"
    and "opn \<notin> set body" and "cls \<notin> set body"
proof -
  from assms obtain xs where "tag = opn # xs" "xs \<noteq> []" "last xs = cls"
    "opn \<notin> set (butlast xs)" "cls \<notin> set (butlast xs)"
    by (cases tag) auto
  then have "tag = opn # butlast xs @ [cls]"
    using append_butlast_last_id [of xs] by simp
  with \<open>opn \<notin> set (butlast xs)\<close> \<open>cls \<notin> set (butlast xs)\<close> that show thesis by blast
qed

lemma stripTag_Nil: "stripTag tag [] = []"
  by (cases tag) (simp_all add: stripTag_def split_def join_def splitNonEmpty.simps)

lemma stripTag_match:
  assumes "tag \<noteq> []" and "prefix tag t"
  shows "stripTag tag t = stripTag tag (drop (length tag) t)"
proof (cases t)
  case Nil
  with assms show ?thesis by simp
next
  case (Cons c cs)
  with assms show ?thesis
    by (simp add: stripTag_def split_def join_def splitNonEmpty.simps [of tag "c # cs"])
qed

lemma stripTag_nomatch:
  assumes "tag \<noteq> []" and "\<not> prefix tag (c # cs)"
  shows "stripTag tag (c # cs) = c # stripTag tag cs"
  using assms
  by (simp add: stripTag_def split_def join_def splitNonEmpty.simps [of tag "c # cs"]
      splitNonEmpty.simps [of tag cs] split: option.splits)

lemma stripTag_free_prefix:
  assumes "opn \<notin> set pre"
  shows "stripTag (opn # tl_tag) (pre @ t) = pre @ stripTag (opn # tl_tag) t"
  using assms
proof (induction pre)
  case Nil
  show ?case by simp
next
  case (Cons c pre)
  then have "\<not> prefix (opn # tl_tag) (c # pre @ t)" by auto
  then have "stripTag (opn # tl_tag) (c # pre @ t) = c # stripTag (opn # tl_tag) (pre @ t)"
    by (intro stripTag_nomatch) simp_all
  with Cons show ?case by simp
qed

lemma stripTag_free:
  "opn \<notin> set t \<Longrightarrow> stripTag (opn # tl_tag) t = t"
  using stripTag_free_prefix [of opn t tl_tag "[]"] by (simp add: stripTag_Nil)

lemma prefix_body_closing:
  assumes "cls \<notin> set body" and "cls \<notin> set body'"
  shows "prefix (body @ [cls]) (body' @ cls # rest) \<longleftrightarrow> body = body'"
proof
  assume "prefix (body @ [cls]) (body' @ cls # rest)"
  then obtain zs where eq: "body' @ cls # rest = body @ cls # zs"
    by (auto simp: prefix_def)
  have "takeWhile (\<lambda>x. x \<noteq> cls) (body' @ cls # rest) = body'"
    using assms(2) by (induction body') auto
  moreover have "takeWhile (\<lambda>x. x \<noteq> cls) (body @ cls # zs) = body"
    using assms(1) by (induction body) auto
  ultimately show "body = body'" using eq by simp
next
  assume "body = body'"
  then show "prefix (body @ [cls]) (body' @ cls # rest)" by (simp add: prefix_def)
qed

lemma stripTag_group:
  assumes "opn \<noteq> cls"
    and "opn \<notin> set body" "cls \<notin> set body"
    and "opn \<notin> set body'" "cls \<notin> set body'"
  shows "stripTag (opn # body @ [cls]) (opn # body' @ cls # rest) =
         (if body' = body then stripTag (opn # body @ [cls]) rest
          else opn # body' @ cls # stripTag (opn # body @ [cls]) rest)"
proof (cases "body' = body")
  case True
  have "prefix (opn # body @ [cls]) (opn # body' @ cls # rest)"
    using True by (simp add: prefix_def)
  from stripTag_match [OF _ this] True show ?thesis by simp
next
  case False
  then have "\<not> prefix (opn # body @ [cls]) (opn # body' @ cls # rest)"
    using prefix_body_closing [OF assms(3) assms(5)] by auto
  then have "stripTag (opn # body @ [cls]) (opn # body' @ cls # rest)
      = opn # stripTag (opn # body @ [cls]) ((body' @ [cls]) @ rest)"
    by (simp add: stripTag_nomatch)
  also have "stripTag (opn # body @ [cls]) ((body' @ [cls]) @ rest)
      = (body' @ [cls]) @ stripTag (opn # body @ [cls]) rest"
    using assms(1,4) by (intro stripTag_free_prefix) auto
  finally show ?thesis using False by simp
qed

lemma dropWhile_free: "opn \<notin> set pre \<Longrightarrow> dropWhile (\<lambda>x. x \<noteq> opn) (pre @ t) = dropWhile (\<lambda>x. x \<noteq> opn) t"
  by (induction pre) auto

lemma flatText_free: "opn \<notin> set t \<Longrightarrow> flatText opn cls t"
proof -
  assume "opn \<notin> set t"
  then have d: "dropWhile (\<lambda>x. x \<noteq> opn) t = []" by (induction t) auto
  show ?thesis by (subst flatText.simps, subst d) simp
qed

lemma flatText_free_prefix:
  "opn \<notin> set pre \<Longrightarrow> flatText opn cls (pre @ t) = flatText opn cls t"
  by (simp add: flatText.simps [of opn cls "pre @ t"] flatText.simps [of opn cls t] dropWhile_free)

lemma flatText_group:
  assumes "opn \<notin> set body" and "cls \<notin> set body"
  shows "flatText opn cls (opn # body @ cls # rest) = flatText opn cls rest"
proof -
  have "dropWhile (\<lambda>y. y \<noteq> cls \<and> y \<noteq> opn) (body @ cls # rest) = cls # rest"
    using assms by (induction body) auto
  then show ?thesis by (simp add: flatText.simps [of opn cls "opn # body @ cls # rest"])
qed

lemma flatText_cases:
  assumes "flatText opn cls t"
  obtains "opn \<notin> set t"
  | pre body rest where "t = pre @ opn # body @ cls # rest" "opn \<notin> set pre"
      "opn \<notin> set body" "cls \<notin> set body" "flatText opn cls rest"
proof (cases "dropWhile (\<lambda>x. x \<noteq> opn) t")
  case Nil
  then have "opn \<notin> set t" by (metis (mono_tags, lifting) dropWhile_eq_Nil_conv)
  then show ?thesis by (rule that(1))
next
  case (Cons x after)
  define pre where "pre = takeWhile (\<lambda>x. x \<noteq> opn) t"
  have t: "t = pre @ x # after"
    unfolding pre_def Cons [symmetric] by simp
  have x: "x = opn" using Cons hd_dropWhile [of "\<lambda>x. x \<noteq> opn" t] by auto
  have pre: "opn \<notin> set pre" unfolding pre_def by (auto dest: set_takeWhileD)
  show ?thesis
  proof (cases "dropWhile (\<lambda>y. y \<noteq> cls \<and> y \<noteq> opn) after")
    case Nil
    with Cons assms show ?thesis by (simp add: flatText.simps [of opn cls t])
  next
    case (Cons y rest) note inner = this
    define body where "body = takeWhile (\<lambda>y. y \<noteq> cls \<and> y \<noteq> opn) after"
    have after: "after = body @ y # rest"
      unfolding body_def inner [symmetric] by simp
    have body: "opn \<notin> set body" "cls \<notin> set body"
      unfolding body_def by (auto dest: set_takeWhileD)
    from assms \<open>dropWhile (\<lambda>x. x \<noteq> opn) t = x # after\<close> inner
    have "y = cls" "flatText opn cls rest"
      by (simp_all add: flatText.simps [of opn cls t])
    with t x after pre body show ?thesis by (intro that(2) [of pre body rest]) simp_all
  qed
qed

lemma flatText_induct [consumes 1, case_names free group]:
  assumes "flatText opn cls t"
    and "\<And>t. opn \<notin> set t \<Longrightarrow> P t"
    and "\<And>pre body rest. opn \<notin> set pre \<Longrightarrow> opn \<notin> set body \<Longrightarrow> cls \<notin> set body \<Longrightarrow>
           flatText opn cls rest \<Longrightarrow> P rest \<Longrightarrow> P (pre @ opn # body @ cls # rest)"
  shows "P t"
  using assms(1)
proof (induction t rule: length_induct)
  case (1 t)
  from 1(2) show ?case
  proof (cases rule: flatText_cases)
    case 1
    then show ?thesis by (rule assms(2))
  next
    case (2 pre body rest)
    then have "length rest < length t" by simp
    with 1(1) 2(5) have "P rest" by blast
    with 2 show ?thesis by (simp add: assms(3))
  qed
qed

lemma stripTag_delimited_step:
  assumes "opn \<noteq> cls" and "opn \<notin> set tb" and "cls \<notin> set tb"
    and "opn \<notin> set pre" and "opn \<notin> set body" and "cls \<notin> set body"
  shows "stripTag (opn # tb @ [cls]) (pre @ opn # body @ cls # rest) =
         pre @ (if body = tb then [] else opn # body @ [cls]) @ stripTag (opn # tb @ [cls]) rest"
  using stripTag_free_prefix [OF assms(4), of "tb @ [cls]" "opn # body @ cls # rest"]
    stripTag_group [OF assms(1,2,3,5,6), of rest]
  by simp

lemma flatText_stripTag:
  assumes "opn \<noteq> cls" and "opn \<notin> set tb" and "cls \<notin> set tb" and "flatText opn cls t"
  shows "flatText opn cls (stripTag (opn # tb @ [cls]) t)"
  using assms(4)
proof (induction rule: flatText_induct)
  case (free t)
  then show ?case by (simp add: stripTag_free flatText_free)
next
  case (group pre body rest)
  then show ?case
    using assms(1-3)
    by (simp add: stripTag_delimited_step flatText_free_prefix flatText_group)
qed

lemma stripTag_commute:
  assumes "opn \<noteq> cls" and "opn \<notin> set ta" and "cls \<notin> set ta"
    and "opn \<notin> set tb" and "cls \<notin> set tb" and "flatText opn cls t"
  shows "stripTag (opn # ta @ [cls]) (stripTag (opn # tb @ [cls]) t) =
         stripTag (opn # tb @ [cls]) (stripTag (opn # ta @ [cls]) t)"
  using assms(6)
proof (induction rule: flatText_induct)
  case (free t)
  then show ?case by (simp add: stripTag_free)
next
  case (group pre body rest)
  have step: "stripTag (opn # tx @ [cls])
        (pre @ (if body = ty then [] else opn # body @ [cls]) @ u) =
      pre @ (if body = ty \<or> body = tx then [] else opn # body @ [cls])
        @ stripTag (opn # tx @ [cls]) u"
    if "opn \<notin> set tx" "cls \<notin> set tx" for tx ty u
  proof (cases "body = ty")
    case True
    then show ?thesis
      using stripTag_free_prefix [OF group(1), of "tx @ [cls]" u] by simp
  next
    case False
    then show ?thesis
      using stripTag_delimited_step [OF assms(1) that group(1,2,3), of u] by simp
  qed
  have "stripTag (opn # ta @ [cls]) (stripTag (opn # tb @ [cls]) (pre @ opn # body @ cls # rest))
      = pre @ (if body = tb \<or> body = ta then [] else opn # body @ [cls])
          @ stripTag (opn # ta @ [cls]) (stripTag (opn # tb @ [cls]) rest)"
    using step [OF assms(2,3), of tb "stripTag (opn # tb @ [cls]) rest"]
    by (simp only: stripTag_delimited_step [OF assms(1,4,5) group(1,2,3)])
  moreover
  have "stripTag (opn # tb @ [cls]) (stripTag (opn # ta @ [cls]) (pre @ opn # body @ cls # rest))
      = pre @ (if body = ta \<or> body = tb then [] else opn # body @ [cls])
          @ stripTag (opn # tb @ [cls]) (stripTag (opn # ta @ [cls]) rest)"
    using step [OF assms(4,5), of ta "stripTag (opn # ta @ [cls]) rest"]
    by (simp only: stripTag_delimited_step [OF assms(1,2,3) group(1,2,3)])
  ultimately show ?case using group(5) by (simp add: disj_commute)
qed

lemma foldl_removeTag_fold: "foldl removeTag t R = fold stripTag (removedTags R) t"
proof (induction R arbitrary: t)
  case Nil
  show ?case by (simp add: removedTags_def)
next
  case (Cons ref R)
  have "removedTags (ref # R) =
      (if \<not> truthyBool (isSelected ref) \<and> truthyString (citationTag ref) \<and>
          trim (the (citationTag ref)) \<noteq> []
       then trim (the (citationTag ref)) # removedTags R else removedTags R)"
    by (simp add: removedTags_def)
  moreover have "removeTag t ref =
      (if \<not> truthyBool (isSelected ref) \<and> truthyString (citationTag ref) \<and>
          trim (the (citationTag ref)) \<noteq> []
       then stripTag (trim (the (citationTag ref))) t else t)"
    by (simp add: removeTag_def stripTag_def)
  ultimately show ?case using Cons.IH by simp
qed

lemma mset_removedTags: "mset R' = mset R \<Longrightarrow> mset (removedTags R') = mset (removedTags R)"
  unfolding removedTags_def by (simp only: mset_filter mset_map)

lemma fold_stripTag_guarded:
  assumes "opn \<noteq> cls" and "\<forall>tag \<in> set tags. delimitedTag opn cls tag" and "flatText opn cls t"
  shows "fold stripTag tags t
       = fold (\<lambda>tag u. if flatText opn cls u then stripTag tag u else u) tags t"
  using assms(2,3)
proof (induction tags arbitrary: t)
  case Nil
  show ?case by simp
next
  case (Cons tag tags)
  from Cons.prems(1) have "delimitedTag opn cls tag" by simp
  then obtain body where "tag = opn # body @ [cls]" "opn \<notin> set body" "cls \<notin> set body"
    by (rule delimitedTagE)
  with assms(1) Cons.prems(2) have "flatText opn cls (stripTag tag t)"
    by (simp add: flatText_stripTag)
  with Cons show ?case by simp
qed

lemma guarded_commute:
  assumes "opn \<noteq> cls" and "delimitedTag opn cls a" and "delimitedTag opn cls b"
  shows "(\<lambda>u. if flatText opn cls u then stripTag a u else u) \<circ>
         (\<lambda>u. if flatText opn cls u then stripTag b u else u) =
         (\<lambda>u. if flatText opn cls u then stripTag b u else u) \<circ>
         (\<lambda>u. if flatText opn cls u then stripTag a u else u)"
proof -
  from assms(2) obtain ta where a: "a = opn # ta @ [cls]" "opn \<notin> set ta" "cls \<notin> set ta"
    by (rule delimitedTagE)
  from assms(3) obtain tb where b: "b = opn # tb @ [cls]" "opn \<notin> set tb" "cls \<notin> set tb"
    by (rule delimitedTagE)
  show ?thesis
  proof (rule ext)
    fix u
    show "((\<lambda>u. if flatText opn cls u then stripTag a u else u) \<circ>
         (\<lambda>u. if flatText opn cls u then stripTag b u else u)) u =
         ((\<lambda>u. if flatText opn cls u then stripTag b u else u) \<circ>
         (\<lambda>u. if flatText opn cls u then stripTag a u else u)) u"
    proof (cases "flatText opn cls u")
      case True
      with assms(1) a b show ?thesis
        by (simp add: flatText_stripTag stripTag_commute)
    next
      case False
      then show ?thesis by simp
    qed
  qed
qed

section \<open>Lemmas on the parser\<close>



lemma REFERENCES_START_nonempty: "REFERENCES_START \<noteq> []"
  by (simp add: REFERENCES_START_def js_def)

lemma split_findSub:
  "findSub sep s = Some (b, a) \<Longrightarrow> sep \<noteq> [] \<Longrightarrow> split s sep = b # split a sep"
  by (simp add: split_def splitNonEmpty.simps [of sep s])

lemma parseResponse_sentinel:
  assumes "findSub REFERENCES_START fullResponse = Some (before, after)"
    and "split after REFERENCES_START = payload # others"
  shows "parseResponse JSON_parse fullResponse =
    Inr (trim (replaceFirst citedTextLabel before),
         (case extractJsonArray payload of
            None \<Rightarrow> JArray []
          | Some jsonContent \<Rightarrow>
              if jsonContent \<noteq> [] then tryParse JSON_parse jsonContent else JArray []))"
proof -
  have "split fullResponse REFERENCES_START = before # payload # others"
    using assms split_findSub [OF assms(1) REFERENCES_START_nonempty] by simp
  moreover have "includesStr fullResponse REFERENCES_START"
    using assms(1) by (simp add: includesStr_def)
  ultimately show ?thesis
    by (simp add: parseResponse_def Let_def split: option.splits)
qed

lemma takeWhile_until:
  "c \<notin> set pre \<Longrightarrow> takeWhile (\<lambda>x. x \<noteq> c) (pre @ c # rest) = pre"
  by (induction pre) auto

lemma extractJsonArray_span:
  assumes "LBRACKET \<notin> set pre" and "RBRACKET \<notin> set post"
  shows "extractJsonArray (pre @ LBRACKET # inner @ RBRACKET # post)
           = Some (LBRACKET # inner @ [RBRACKET])"
proof -
  let ?text = "pre @ LBRACKET # inner @ RBRACKET # post"
  have first: "indexOf ?text LBRACKET = int (length pre)"
    using assms(1) by (simp add: indexOf_def takeWhile_until)
  have "rev ?text = rev post @ RBRACKET # rev (pre @ LBRACKET # inner)" by simp
  then have "takeWhile (\<lambda>x. x \<noteq> RBRACKET) (rev ?text) = rev post"
    using assms(2) takeWhile_until [of RBRACKET "rev post"] by simp
  then have last: "lastIndexOf ?text RBRACKET = int (length pre) + 1 + int (length inner)"
    by (simp add: lastIndexOf_def)
  have "substring ?text (int (length pre)) (int (length pre) + 1 + int (length inner) + 1)
          = LBRACKET # inner @ [RBRACKET]"
    by (simp add: substring_def Let_def min_def max_def nat_add_distrib)
  with first last show ?thesis
    by (simp add: extractJsonArray_def Let_def)
qed

section \<open>The selective renderer on the scenarios of the specification\<close>

text \<open>
  C1. Scenario 1: with reference 1 deselected and reference 2 selected, whatever the other
  props of the two references are, the text "AI improves outcomes [1] and [2]." is
  rendered as "AI improves outcomes and [2].": the tag [1] is removed and the two spaces
  left behind become one.
\<close>

theorem scenario1_render:
  "getFilteredCitedText (js ''AI improves outcomes [1] and [2].'')
     [ra\<lparr>id' := 1, citationTag := Some (js ''[1]''), isSelected := Some False\<rparr>,
      rb\<lparr>id' := 2, citationTag := Some (js ''[2]''), isSelected := Some True\<rparr>]
   = js ''AI improves outcomes and [2].''"
  by (simp add: getFilteredCitedText_def removeTag_def js_def trim_def trimStart_def trimEnd_def
      isWhitespace_def split_def join_def splitNonEmpty.simps cleanup_def replaceAll.simps)

text \<open>
  C9, amended. A reference whose \<open>isSelected\<close> is absent and whose \<open>citationTag\<close> is
  not empty is handled as a deselected one. At its turn in the loop the text is replaced by
  \<open>text.split(tag).join("")\<close> for the trimmed tag, so the rendered text is the cleanup of
  what the rest of the loop makes of that; the split takes out the occurrences that one
  scan from the left finds, and no piece between them holds the tag. The rendered text is
  the one obtained with \<open>isSelected = false\<close>.
\<close>

theorem absent_isSelected_is_deselected:
  assumes "isSelected ref = None" and "citationTag ref = Some tg" and "tg \<noteq> []"
  shows "getFilteredCitedText text (before @ ref # after) =
           cleanup (foldl removeTag
                      (join (split (foldl removeTag text before) (trim tg))) after) \<and>
         (\<forall>piece \<in> set (split (foldl removeTag text before) (trim tg)).
            trim tg \<noteq> [] \<longrightarrow> \<not> sublist (trim tg) piece) \<and>
         getFilteredCitedText text (before @ ref # after) =
           getFilteredCitedText text (before @ ref\<lparr>isSelected := Some False\<rparr> # after)"
proof (intro conjI)
  have "removeTag t ref = join (split t (trim tg))" for t
    using assms by (simp add: removeTag_def split_def join_def join_single)
  then show "getFilteredCitedText text (before @ ref # after) =
           cleanup (foldl removeTag
                      (join (split (foldl removeTag text before) (trim tg))) after)"
    by (simp add: getFilteredCitedText_def)
  show "\<forall>piece \<in> set (split (foldl removeTag text before) (trim tg)).
            trim tg \<noteq> [] \<longrightarrow> \<not> sublist (trim tg) piece"
    by (auto simp: split_def dest: split_pieces_free)
  show "getFilteredCitedText text (before @ ref # after) =
           getFilteredCitedText text (before @ ref\<lparr>isSelected := Some False\<rparr> # after)"
    using removeTag_absent [OF assms(1)] by (simp add: getFilteredCitedText_def)
qed

text \<open>
  C9 as stated fails: on the text "[[1]1]" the split takes out the one occurrence of the
  tag [1], and the two pieces join to a new one, which the rendered text keeps.
\<close>

theorem tag_survives_counterexample:
  "isSelected exampleRef = None \<and> citationTag exampleRef = Some (js ''[1]'') \<and>
   getFilteredCitedText (js ''[[1]1]'') [exampleRef] = js ''[1]'' \<and>
   sublist (js ''[1]'') (getFilteredCitedText (js ''[[1]1]'') [exampleRef])"
proof -
  have "getFilteredCitedText (js ''[[1]1]'') [exampleRef] = js ''[1]''"
    by (simp add: getFilteredCitedText_def removeTag_def exampleRef_def js_def trim_def
        trimStart_def trimEnd_def isWhitespace_def split_def join_def splitNonEmpty.simps
        cleanup_def replaceAll.simps)
  then show ?thesis by (simp add: exampleRef_def)
qed

theorem absent_isSelected_witness:
  "isSelected exampleRef = None \<and> citationTag exampleRef = Some (js ''[1]'') \<and> js ''[1]'' \<noteq> [] \<and>
   join (split (js ''a [1] b [1].'') (trim (js ''[1]''))) = js ''a  b .'' \<and>
   getFilteredCitedText (js ''a [1] b [1].'') ([] @ exampleRef # []) = js ''a b.'' \<and>
   getFilteredCitedText (js ''a [1] b [1].'') ([] @ exampleRef\<lparr>isSelected := Some False\<rparr> # [])
     = js ''a b.''"
proof -
  have h: "isSelected exampleRef = None" "citationTag exampleRef = Some (js ''[1]'')" "js ''[1]'' \<noteq> []"
    by (simp_all add: exampleRef_def js_def)
  have j: "join (split (js ''a [1] b [1].'') (trim (js ''[1]''))) = js ''a  b .''"
    by (simp add: js_def trim_def trimStart_def trimEnd_def isWhitespace_def split_def join_def
        splitNonEmpty.simps)
  have c: "cleanup (js ''a  b .'') = js ''a b.''"
    by (simp add: js_def cleanup_def replaceAll.simps isWhitespace_def trim_def trimStart_def
        trimEnd_def)
  note t = absent_isSelected_is_deselected [OF h, of "js ''a [1] b [1].''" "[]" "[]"]
  from t j c have a: "getFilteredCitedText (js ''a [1] b [1].'') ([] @ exampleRef # []) = js ''a b.''"
    by simp
  from t have b: "getFilteredCitedText (js ''a [1] b [1].'') ([] @ exampleRef # []) =
      getFilteredCitedText (js ''a [1] b [1].'') ([] @ exampleRef\<lparr>isSelected := Some False\<rparr> # [])"
    by blast
  have "getFilteredCitedText (js ''a [1] b [1].'') ([] @ exampleRef\<lparr>isSelected := Some False\<rparr> # [])
      = js ''a b.''"
    by (rule trans [OF b [symmetric] a])
  with a h j show ?thesis by blast
qed

text \<open>
  C2, amended. Rendering the output of the renderer again, with the same references, gives
  the same text whenever that output holds none of the removed tags and none of the seven
  expressions of the cleanup chain matches in it.
\<close>

theorem render_idempotent_on_clean_output:
  assumes "\<forall>tag \<in> set (removedTags R). \<not> sublist tag (getFilteredCitedText T R)"
    and "cleanText (getFilteredCitedText T R)"
  shows "getFilteredCitedText (getFilteredCitedText T R) R = getFilteredCitedText T R"
proof -
  have "foldl removeTag (getFilteredCitedText T R) R = getFilteredCitedText T R"
    using assms(1) by (rule foldl_removeTag_absent)
  moreover have "trim (getFilteredCitedText T R) = getFilteredCitedText T R"
    by (simp add: getFilteredCitedText_def trim_cleanup)
  ultimately show ?thesis
    using assms(2) cleanup_fix [of "getFilteredCitedText T R"]
    by (simp add: getFilteredCitedText_def)
qed

text \<open>
  C2 as stated fails: one pass over three commas leaves two, and the next pass leaves one.
\<close>

theorem render_not_idempotent_counterexample:
  "getFilteredCitedText (js '',,,'') ([] :: Reference list) = js '',,'' \<and>
   getFilteredCitedText (getFilteredCitedText (js '',,,'') ([] :: Reference list)) ([] :: Reference list)
     = js '','' \<and>
   getFilteredCitedText (getFilteredCitedText (js '',,,'') ([] :: Reference list)) ([] :: Reference list)
     \<noteq> getFilteredCitedText (js '',,,'') ([] :: Reference list)"
proof -
  have a: "getFilteredCitedText (js '',,,'') ([] :: Reference list) = js '',,''"
    by (simp add: getFilteredCitedText_def js_def trim_def trimStart_def trimEnd_def
      isWhitespace_def cleanup_def replaceAll.simps)
  have b: "getFilteredCitedText (js '',,'') ([] :: Reference list) = js '',''"
    by (simp add: getFilteredCitedText_def js_def trim_def trimStart_def trimEnd_def
      isWhitespace_def cleanup_def replaceAll.simps)
  have "js '','' \<noteq> js '',,''" by (simp add: js_def)
  with a b show ?thesis by simp
qed

theorem render_idempotent_witness:
  "set (removedTags [exampleRef\<lparr>isSelected := Some False\<rparr>,
          exampleRef\<lparr>id' := 2, citationTag := Some (js ''[2]''), isSelected := Some True\<rparr>])
     = {js ''[1]''} \<and>
   \<not> sublist (js ''[1]'') (js ''AI improves outcomes and [2].'') \<and>
   cleanText (js ''AI improves outcomes and [2].'') \<and>
   getFilteredCitedText (js ''AI improves outcomes [1] and [2].'')
     [exampleRef\<lparr>isSelected := Some False\<rparr>,
      exampleRef\<lparr>id' := 2, citationTag := Some (js ''[2]''), isSelected := Some True\<rparr>]
     = js ''AI improves outcomes and [2].'' \<and>
   getFilteredCitedText (js ''AI improves outcomes and [2].'')
     [exampleRef\<lparr>isSelected := Some False\<rparr>,
      exampleRef\<lparr>id' := 2, citationTag := Some (js ''[2]''), isSelected := Some True\<rparr>]
     = js ''AI improves outcomes and [2].''"
proof -
  let ?R = "[exampleRef\<lparr>isSelected := Some False\<rparr>,
      exampleRef\<lparr>id' := 2, citationTag := Some (js ''[2]''), isSelected := Some True\<rparr>]"
  let ?T = "js ''AI improves outcomes [1] and [2].''"
  let ?O = "js ''AI improves outcomes and [2].''"
  have tags: "set (removedTags ?R) = {js ''[1]''}"
    by (simp add: removedTags_def exampleRef_def js_def trim_def trimStart_def trimEnd_def
        isWhitespace_def)
  have out: "getFilteredCitedText ?T ?R = ?O"
    by (simp add: getFilteredCitedText_def removeTag_def exampleRef_def js_def trim_def
        trimStart_def trimEnd_def isWhitespace_def split_def join_def splitNonEmpty.simps
        cleanup_def replaceAll.simps)
  have "findSub (js ''[1]'') ?O = None" by (simp add: js_def)
  then have free: "\<not> sublist (js ''[1]'') ?O" by (simp add: findSub_None_iff)
  have clean: "cleanText ?O"
    by (simp add: cleanText_def js_def isWhitespace_def)
  from tags free out have h1: "\<forall>tag \<in> set (removedTags ?R). \<not> sublist tag (getFilteredCitedText ?T ?R)"
    by simp
  from clean out have h2: "cleanText (getFilteredCitedText ?T ?R)" by simp
  from render_idempotent_on_clean_output [OF h1 h2] tags free clean out show ?thesis by simp
qed

text \<open>
  C8, amended. Let \<open>opn\<close> and \<open>cls\<close> be two different code units, let the text be flat
  for them, and let every tag that the renderer removes be delimited by them. Then every
  permutation of the reference list gives the same rendered text.
\<close>

theorem render_order_independent:
  assumes "opn \<noteq> cls"
    and "flatText opn cls T"
    and "\<forall>tag \<in> set (removedTags R). delimitedTag opn cls tag"
    and "mset R' = mset R"
  shows "getFilteredCitedText T R' = getFilteredCitedText T R"
proof -
  let ?g = "\<lambda>tag u. if flatText opn cls u then stripTag tag u else u"
  have m: "mset (removedTags R') = mset (removedTags R)"
    using assms(4) by (rule mset_removedTags)
  then have s: "set (removedTags R') = set (removedTags R)" by (rule mset_eq_setD)
  have "fold ?g (removedTags R') = fold ?g (removedTags R)"
  proof (rule fold_multiset_equiv [OF _ m])
    fix a b
    assume "a \<in> set (removedTags R')" "b \<in> set (removedTags R')"
    with s assms(3) have "delimitedTag opn cls a" "delimitedTag opn cls b" by auto
    with assms(1) show "?g a \<circ> ?g b = ?g b \<circ> ?g a" by (rule guarded_commute)
  qed
  moreover have "fold stripTag (removedTags R') T = fold ?g (removedTags R') T"
    using assms(1,2,3) s by (intro fold_stripTag_guarded) auto
  moreover have "fold stripTag (removedTags R) T = fold ?g (removedTags R) T"
    using assms(1,2,3) by (intro fold_stripTag_guarded) auto
  ultimately have "foldl removeTag T R' = foldl removeTag T R"
    by (simp add: foldl_removeTag_fold)
  then show ?thesis by (simp add: getFilteredCitedText_def)
qed

text \<open>
  C8 as stated fails: neither of the tags [1] and [2] is a substring of the other, yet on
  the text "[[1]2]" removing [1] first leaves a [2] that is removed next, while removing
  [2] first finds nothing and leaves "[2]".
\<close>

theorem removal_order_counterexample:
  "removedTags [exampleRef\<lparr>isSelected := Some False\<rparr>,
                exampleRef\<lparr>id' := 2, citationTag := Some (js ''[2]''), isSelected := Some False\<rparr>] = [js ''[1]'', js ''[2]''] \<and>
   \<not> sublist (js ''[1]'') (js ''[2]'') \<and> \<not> sublist (js ''[2]'') (js ''[1]'') \<and>
   getFilteredCitedText (js ''[[1]2]'')
     [exampleRef\<lparr>isSelected := Some False\<rparr>,
      exampleRef\<lparr>id' := 2, citationTag := Some (js ''[2]''), isSelected := Some False\<rparr>] = [] \<and>
   getFilteredCitedText (js ''[[1]2]'')
     [exampleRef\<lparr>id' := 2, citationTag := Some (js ''[2]''), isSelected := Some False\<rparr>,
      exampleRef\<lparr>isSelected := Some False\<rparr>] = js ''[2]''"
proof -
  have "findSub (js ''[1]'') (js ''[2]'') = None" "findSub (js ''[2]'') (js ''[1]'') = None"
    by (simp_all add: js_def)
  then have "\<not> sublist (js ''[1]'') (js ''[2]'')" "\<not> sublist (js ''[2]'') (js ''[1]'')"
    by (simp_all add: findSub_None_iff)
  moreover have "removedTags [exampleRef\<lparr>isSelected := Some False\<rparr>,
                exampleRef\<lparr>id' := 2, citationTag := Some (js ''[2]''), isSelected := Some False\<rparr>] = [js ''[1]'', js ''[2]'']"
    by (simp add: removedTags_def exampleRef_def js_def trim_def trimStart_def trimEnd_def
        isWhitespace_def)
  moreover have "getFilteredCitedText (js ''[[1]2]'')
     [exampleRef\<lparr>isSelected := Some False\<rparr>,
      exampleRef\<lparr>id' := 2, citationTag := Some (js ''[2]''), isSelected := Some False\<rparr>] = []"
    by (simp add: getFilteredCitedText_def removeTag_def exampleRef_def js_def trim_def
        trimStart_def trimEnd_def isWhitespace_def split_def join_def splitNonEmpty.simps
        cleanup_def replaceAll.simps)
  moreover have "getFilteredCitedText (js ''[[1]2]'')
     [exampleRef\<lparr>id' := 2, citationTag := Some (js ''[2]''), isSelected := Some False\<rparr>,
      exampleRef\<lparr>isSelected := Some False\<rparr>] = js ''[2]''"
    by (simp add: getFilteredCitedText_def removeTag_def exampleRef_def js_def trim_def
        trimStart_def trimEnd_def isWhitespace_def split_def join_def splitNonEmpty.simps
        cleanup_def replaceAll.simps)
  ultimately show ?thesis by simp
qed

theorem render_order_witness:
  "LBRACKET \<noteq> RBRACKET \<and>
   flatText LBRACKET RBRACKET (js ''AI improves outcomes [1] and [2].'') \<and>
   list_all (delimitedTag LBRACKET RBRACKET)
     (removedTags [exampleRef\<lparr>isSelected := Some False\<rparr>,
                   exampleRef\<lparr>id' := 2, citationTag := Some (js ''[2]''), isSelected := Some False\<rparr>]) \<and>
   mset [exampleRef\<lparr>id' := 2, citationTag := Some (js ''[2]''), isSelected := Some False\<rparr>,
         exampleRef\<lparr>isSelected := Some False\<rparr>]
     = mset [exampleRef\<lparr>isSelected := Some False\<rparr>,
             exampleRef\<lparr>id' := 2, citationTag := Some (js ''[2]''), isSelected := Some False\<rparr>] \<and>
   getFilteredCitedText (js ''AI improves outcomes [1] and [2].'')
     [exampleRef\<lparr>isSelected := Some False\<rparr>,
      exampleRef\<lparr>id' := 2, citationTag := Some (js ''[2]''), isSelected := Some False\<rparr>]
     = js ''AI improves outcomes and.'' \<and>
   getFilteredCitedText (js ''AI improves outcomes [1] and [2].'')
     [exampleRef\<lparr>id' := 2, citationTag := Some (js ''[2]''), isSelected := Some False\<rparr>,
      exampleRef\<lparr>isSelected := Some False\<rparr>]
     = js ''AI improves outcomes and.''"
proof -
  let ?T = "js ''AI improves outcomes [1] and [2].''"
  let ?R = "[exampleRef\<lparr>isSelected := Some False\<rparr>,
             exampleRef\<lparr>id' := 2, citationTag := Some (js ''[2]''), isSelected := Some False\<rparr>]"
  let ?R' = "[exampleRef\<lparr>id' := 2, citationTag := Some (js ''[2]''), isSelected := Some False\<rparr>,
              exampleRef\<lparr>isSelected := Some False\<rparr>]"
  have ne: "LBRACKET \<noteq> RBRACKET" by simp
  have flat: "flatText LBRACKET RBRACKET ?T"
    by (simp add: js_def flatText.simps)
  have tags: "removedTags ?R = [js ''[1]'', js ''[2]'']"
    by (simp add: removedTags_def exampleRef_def js_def trim_def trimStart_def trimEnd_def
        isWhitespace_def)
  have delim: "\<forall>tag \<in> set (removedTags ?R). delimitedTag LBRACKET RBRACKET tag"
    unfolding tags by (simp add: js_def)
  have perm: "mset ?R' = mset ?R" by simp
  have out: "getFilteredCitedText ?T ?R = js ''AI improves outcomes and.''"
    by (simp add: getFilteredCitedText_def removeTag_def exampleRef_def js_def trim_def
        trimStart_def trimEnd_def isWhitespace_def split_def join_def splitNonEmpty.simps
        cleanup_def replaceAll.simps)
  from render_order_independent [OF ne flat delim perm] out
  have "getFilteredCitedText ?T ?R' = js ''AI improves outcomes and.''" by simp
  with ne flat delim perm out show ?thesis by (simp add: list_all_iff)
qed

section \<open>The word diff\<close>

text \<open>
  C6, amended. With an empty baseline the diff is one unstyled span holding the revised
  text: nothing is highlighted. The diff of a non-empty text against itself gives every
  token that is not whitespace the class of an unchanged word, and no token is marked as
  added.
\<close>

theorem word_diff_classes:
  "getWordDiff textContent [] T = [(Unstyled, T)] \<and>
   (T \<noteq> [] \<longrightarrow>
      getWordDiff textContent T T =
        map (\<lambda>w. (if trim w = [] then Unstyled else Unchanged, w))
          (splitWhitespace (stripHtml textContent T))) \<and>
   (\<forall>sp \<in> set (getWordDiff textContent T T). fst sp \<noteq> Added)"
  by (auto simp: getWordDiff_def classify_def Let_def)

text \<open>
  C6 as stated fails: with an empty baseline the word "new" is not marked as added.
\<close>

theorem word_diff_empty_baseline_counterexample:
  "getWordDiff Some [] (js ''new'') = [(Unstyled, js ''new'')] \<and>
   (Added, js ''new'') \<notin> set (getWordDiff Some [] (js ''new''))"
  by (simp add: getWordDiff_def)

theorem word_diff_classes_witness:
  "js ''a b'' \<noteq> [] \<and>
   getWordDiff Some (js ''a b'') (js ''a b'') = [(Unchanged, js ''a''), (Unstyled, js '' ''), (Unchanged, js ''b'')] \<and>
   getWordDiff Some [] (js ''a b'') = [(Unstyled, js ''a b'')]"
proof -
  have ne: "js ''a b'' \<noteq> []" by (simp add: js_def)
  have sp: "splitWhitespace (stripHtml Some (js ''a b'')) = [js ''a'', js '' '', js ''b'']"
    by (simp add: stripHtml_def js_def splitWhitespace.simps isWhitespace_def)
  have tr: "trim (js ''a'') \<noteq> []" "trim (js '' '') = []" "trim (js ''b'') \<noteq> []"
    by (simp_all add: js_def trim_def trimStart_def trimEnd_def isWhitespace_def)
  from word_diff_classes [of Some "js ''a b''"] ne sp tr show ?thesis by simp
qed

section \<open>The selection toggle\<close>

text \<open>
  C10. The toggle keeps the number and order of the sessions and, in every session, all
  fields but \<open>references\<close>; a session with another timestamp is returned as it is. In a
  session with the given timestamp the references keep their number, order and every field
  but \<open>isSelected\<close>; the references with the given id get the negated truthiness of
  their flag, and all others are unchanged. The result is a new list: the history passed in
  is a value and is not modified.
\<close>

theorem toggle_frame:
  fixes prev :: "('a Reference_scheme, 'b) SavedCitation_scheme list"
  shows "(let out = toggleReferenceSelection sessionTimestamp refId prev in
    length out = length prev \<and>
    (\<forall>i < length prev.
       originalText (out ! i) = originalText (prev ! i) \<and>
       citedText (out ! i) = citedText (prev ! i) \<and>
       groundingUrls (out ! i) = groundingUrls (prev ! i) \<and>
       timestamp (out ! i) = timestamp (prev ! i) \<and>
       SavedCitation.more (out ! i) = SavedCitation.more (prev ! i) \<and>
       length (references (out ! i)) = length (references (prev ! i)) \<and>
       (timestamp (prev ! i) \<noteq> sessionTimestamp \<longrightarrow> out ! i = prev ! i) \<and>
       (\<forall>j < length (references (prev ! i)).
          (references (out ! i) ! j)\<lparr>isSelected := isSelected (references (prev ! i) ! j)\<rparr>
            = references (prev ! i) ! j \<and>
          (if timestamp (prev ! i) = sessionTimestamp \<and> id' (references (prev ! i) ! j) = refId
           then isSelected (references (out ! i) ! j)
                  = Some (\<not> truthyBool (isSelected (references (prev ! i) ! j)))
           else references (out ! i) ! j = references (prev ! i) ! j))))"
  unfolding toggleReferenceSelection_def Let_def
  by (auto simp: toggleRef_frame toggleRef_hit toggleRef_miss)

theorem toggle_frame_witness:
  "(0::nat) < length [exampleSession, exampleSession\<lparr>timestamp := 200\<rparr>] \<and>
   (0::nat) < length (references exampleSession) \<and>
   timestamp exampleSession = 100 \<and> id' (references exampleSession ! 0) = 1 \<and>
   isSelected (references
      (toggleReferenceSelection 100 1 [exampleSession, exampleSession\<lparr>timestamp := 200\<rparr>] ! 0) ! 0)
     = Some True \<and>
   references
      (toggleReferenceSelection 100 1 [exampleSession, exampleSession\<lparr>timestamp := 200\<rparr>] ! 0) ! 1
     = references exampleSession ! 1 \<and>
   toggleReferenceSelection 100 1 [exampleSession, exampleSession\<lparr>timestamp := 200\<rparr>] ! 1
     = exampleSession\<lparr>timestamp := 200\<rparr>"
proof -
  let ?prev = "[exampleSession, exampleSession\<lparr>timestamp := 200\<rparr>]"
  have facts: "(0::nat) < length ?prev" "(1::nat) < length ?prev"
    "(0::nat) < length (references exampleSession)" "(1::nat) < length (references exampleSession)"
    "timestamp exampleSession = 100" "id' (references exampleSession ! 0) = 1"
    "id' (references exampleSession ! 1) \<noteq> 1" "isSelected (references exampleSession ! 0) = None"
    by (simp_all add: exampleSession_def exampleRef_def)
  from toggle_frame [of 100 1 ?prev] facts show ?thesis
    unfolding Let_def by (auto simp: nth_Cons')
qed

section \<open>The response parser\<close>

text \<open>
  C3, amended. \<open>extractJsonArray\<close> takes the text from the first \<open>[\<close> to the last
  \<open>]\<close>. When no \<open>[\<close> stands before the array and no \<open>]\<close> behind it, the span is
  the array, whatever brackets its string literals hold: an inner \<open>]\<close> does not
  end it, and behind the sentinel \<open>JSON.parse\<close> gets this span, so that the raw
  references are the array it denotes. String literals and nesting depth are not looked at.
\<close>

theorem extractJsonArray_first_to_last:
  assumes "LBRACKET \<notin> set pre" and "RBRACKET \<notin> set post"
  shows "extractJsonArray (pre @ LBRACKET # inner @ RBRACKET # post)
           = Some (LBRACKET # inner @ [RBRACKET]) \<and>
         (findSub REFERENCES_START fullResponse = Some (before, after) \<and>
          split after REFERENCES_START = (pre @ LBRACKET # inner @ RBRACKET # post) # others \<and>
          JSON_parse (LBRACKET # inner @ [RBRACKET]) = Some (JArray refs)
          \<longrightarrow> parseResponse JSON_parse fullResponse
                = Inr (trim (replaceFirst citedTextLabel before), JArray refs))"
  using extractJsonArray_span [OF assms, of inner]
  by (auto simp: parseResponse_sentinel tryParse_def)

text \<open>
  C3 as stated fails: with a \<open>]\<close> behind the array, the span of the source runs to that
  bracket, where the scan of the specification ends at the bracket that closes the array.
\<close>

theorem scan_mismatch_counterexample:
  \<open>extractJsonArray (js ''[{"title":"A [draft] Study"}] (see [1])'')
     = Some (js ''[{"title":"A [draft] Study"}] (see [1]'') \<and>
   specBalancedScan (js ''[{"title":"A [draft] Study"}] (see [1])'')
     = Some (js ''[{"title":"A [draft] Study"}]'') \<and>
   extractJsonArray (js ''[{"title":"A [draft] Study"}] (see [1])'')
     \<noteq> specBalancedScan (js ''[{"title":"A [draft] Study"}] (see [1])'')\<close>
proof -
  have a: \<open>extractJsonArray (js ''[{"title":"A [draft] Study"}] (see [1])'')
     = Some (js ''[{"title":"A [draft] Study"}] (see [1]'')\<close>
    by (simp add: extractJsonArray_def indexOf_def lastIndexOf_def substring_def js_def)
  have b: \<open>specBalancedScan (js ''[{"title":"A [draft] Study"}] (see [1])'')
     = Some (js ''[{"title":"A [draft] Study"}]'')\<close>
    by (simp add: specBalancedScan_def js_def)
  have \<open>js ''[{"title":"A [draft] Study"}] (see [1]'' \<noteq> js ''[{"title":"A [draft] Study"}]''\<close>
    by (simp add: js_def)
  with a b show ?thesis by simp
qed

theorem extractJsonArray_witness:
  \<open>LBRACKET \<notin> set (js '' json: '') \<and> RBRACKET \<notin> set (js '' done'') \<and>
   extractJsonArray (js '' json: [{"title":"A [draft] Study"}] done'')
     = Some (js ''[{"title":"A [draft] Study"}]'') \<and>
   findSub REFERENCES_START
       (js ''Cited Text: Hi [1].---REFERENCES_START--- json: [{"title":"A [draft] Study"}] done'')
     = Some (js ''Cited Text: Hi [1].'', js '' json: [{"title":"A [draft] Study"}] done'') \<and>
   parseResponse
       (\<lambda>s. if s = js ''[{"title":"A [draft] Study"}]''
            then Some (JArray [JObject [(js ''title'', JString (js ''A [draft] Study''))]])
            else None)
       (js ''Cited Text: Hi [1].---REFERENCES_START--- json: [{"title":"A [draft] Study"}] done'')
     = Inr (js ''Hi [1].'', JArray [JObject [(js ''title'', JString (js ''A [draft] Study''))]])\<close>
proof -
  let ?parse = \<open>\<lambda>s. if s = js ''[{"title":"A [draft] Study"}]''
            then Some (JArray [JObject [(js ''title'', JString (js ''A [draft] Study''))]])
            else None\<close>
  have h: "LBRACKET \<notin> set (js '' json: '')" "RBRACKET \<notin> set (js '' done'')"
    by (simp_all add: js_def)
  have d: \<open>js '' json: [{"title":"A [draft] Study"}] done''
     = js '' json: '' @ LBRACKET # js ''{"title":"A [draft] Study"}'' @ RBRACKET # js '' done''\<close>
    \<open>js ''[{"title":"A [draft] Study"}]'' = LBRACKET # js ''{"title":"A [draft] Study"}'' @ [RBRACKET]\<close>
    by (simp_all add: js_def)
  have f: \<open>findSub REFERENCES_START
       (js ''Cited Text: Hi [1].---REFERENCES_START--- json: [{"title":"A [draft] Study"}] done'')
     = Some (js ''Cited Text: Hi [1].'', js '' json: [{"title":"A [draft] Study"}] done'')\<close>
    by (simp add: REFERENCES_START_def js_def)
  have s: \<open>split (js '' json: [{"title":"A [draft] Study"}] done'') REFERENCES_START
     = js '' json: [{"title":"A [draft] Study"}] done'' # []\<close>
    by (simp add: REFERENCES_START_def js_def split_def splitNonEmpty.simps)
  have p: \<open>?parse (js ''[{"title":"A [draft] Study"}]'')
     = Some (JArray [JObject [(js ''title'', JString (js ''A [draft] Study''))]])\<close>
    by simp
  have t: "trim (replaceFirst citedTextLabel (js ''Cited Text: Hi [1].'')) = js ''Hi [1].''"
    by (simp add: trim_def trimStart_def trimEnd_def citedTextLabel_def lowerAscii_def
        isWhitespace_def js_def)
  from extractJsonArray_first_to_last [OF h, of \<open>js ''{"title":"A [draft] Study"}''\<close>
      \<open>js ''Cited Text: Hi [1].---REFERENCES_START--- json: [{"title":"A [draft] Study"}] done''\<close>
      \<open>js ''Cited Text: Hi [1].''\<close> \<open>js '' json: [{"title":"A [draft] Study"}] done''\<close> "[]"
      ?parse \<open>[JObject [(js ''title'', JString (js ''A [draft] Study''))]]\<close>]
    h f s p t
  show ?thesis unfolding d [symmetric] by simp
qed

text \<open>
  C5. When the sentinel is there and the text behind it (up to a second sentinel) holds no
  bracket span, or \<open>JSON.parse\<close> throws on the span, the parse step ends without an
  error: it gives the trimmed text before the sentinel, without its label, as the narrative
  and the empty list as the raw references. The whole call then resolves, with an empty
  reference list.
\<close>

theorem malformed_payload_degrades:
  assumes "findSub REFERENCES_START fullResponse = Some (before, after)"
    and "split after REFERENCES_START = payload # others"
    and "extractJsonArray payload = None \<or>
         (\<exists>jsonContent. extractJsonArray payload = Some jsonContent \<and> JSON_parse jsonContent = None)"
  shows "parseResponse JSON_parse fullResponse
           = Inr (trim (replaceFirst citedTextLabel before), JArray []) \<and>
         (\<exists>result. processCitations JSON_parse randomId input (Some fullResponse) = Inr result \<and>
             references result = [])"
proof -
  have parse: "parseResponse JSON_parse fullResponse
           = Inr (trim (replaceFirst citedTextLabel before), JArray [])"
    using assms(3) by (auto simp: parseResponse_sentinel [OF assms(1,2)] tryParse_def)
  then show ?thesis by (simp add: processCitations_def)
qed

theorem malformed_payload_witness:
  "findSub REFERENCES_START (js ''Cited Text: Hi [1]. ---REFERENCES_START---[not json]'')
     = Some (js ''Cited Text: Hi [1]. '', js ''[not json]'') \<and>
   split (js ''[not json]'') REFERENCES_START = js ''[not json]'' # [] \<and>
   extractJsonArray (js ''[not json]'') = Some (js ''[not json]'') \<and>
   parseResponse (\<lambda>s. None) (js ''Cited Text: Hi [1]. ---REFERENCES_START---[not json]'')
     = Inr (js ''Hi [1].'', JArray []) \<and>
   findSub REFERENCES_START (js ''Cited Text: Hi [1]. ---REFERENCES_START---not json'')
     = Some (js ''Cited Text: Hi [1]. '', js ''not json'') \<and>
   split (js ''not json'') REFERENCES_START = js ''not json'' # [] \<and>
   extractJsonArray (js ''not json'') = None \<and>
   parseResponse (\<lambda>s. Some JNull) (js ''Cited Text: Hi [1]. ---REFERENCES_START---not json'')
     = Inr (js ''Hi [1].'', JArray [])"
proof -
  have f: "findSub REFERENCES_START (js ''Cited Text: Hi [1]. ---REFERENCES_START---[not json]'')
     = Some (js ''Cited Text: Hi [1]. '', js ''[not json]'')"
    by (simp add: REFERENCES_START_def js_def)
  have s: "split (js ''[not json]'') REFERENCES_START = js ''[not json]'' # []"
    by (simp add: REFERENCES_START_def js_def split_def splitNonEmpty.simps)
  have e: "extractJsonArray (js ''[not json]'') = Some (js ''[not json]'')"
    by (simp add: extractJsonArray_def indexOf_def lastIndexOf_def substring_def js_def)
  have t: "trim (replaceFirst citedTextLabel (js ''Cited Text: Hi [1]. '')) = js ''Hi [1].''"
    by (simp add: trim_def trimStart_def trimEnd_def citedTextLabel_def lowerAscii_def
        isWhitespace_def js_def)
  have h: "extractJsonArray (js ''[not json]'') = None \<or>
         (\<exists>jsonContent. extractJsonArray (js ''[not json]'') = Some jsonContent \<and>
            (\<lambda>s. None) jsonContent = (None :: json option))"
    using e by simp
  have f': "findSub REFERENCES_START (js ''Cited Text: Hi [1]. ---REFERENCES_START---not json'')
     = Some (js ''Cited Text: Hi [1]. '', js ''not json'')"
    by (simp add: REFERENCES_START_def js_def)
  have s': "split (js ''not json'') REFERENCES_START = js ''not json'' # []"
    by (simp add: REFERENCES_START_def js_def split_def splitNonEmpty.simps)
  have e': "extractJsonArray (js ''not json'') = None"
    by (simp add: extractJsonArray_def indexOf_def lastIndexOf_def js_def)
  have h': "extractJsonArray (js ''not json'') = None \<or>
         (\<exists>jsonContent. extractJsonArray (js ''not json'') = Some jsonContent \<and>
            (\<lambda>s. Some JNull) jsonContent = None)"
    using e' by simp
  from malformed_payload_degrades [OF f s h] malformed_payload_degrades [OF f' s' h']
    f s e t f' s' e'
  show ?thesis by simp
qed

section \<open>Validation and normalization\<close>

text \<open>
  C4, amended. In a decoded array without \<open>null\<close> elements, the records kept are exactly
  those whose \<open>title\<close>, \<open>originalSourceSentence\<close> and \<open>citationTag\<close> are all
  truthy, in the order of the payload; the others are dropped and the call goes on.
  A \<open>snippet\<close> does not stand in for the source sentence.
\<close>

theorem filter_keeps_exactly:
  "JNull \<notin> set refs \<Longrightarrow>
   filterRefs refs =
     Inr (filter (\<lambda>ref. truthy (getProp ref (js ''title'')) \<and>
                       truthy (getProp ref (js ''originalSourceSentence'')) \<and>
                       truthy (getProp ref (js ''citationTag''))) refs)"
proof (induction refs)
  case Nil
  then show ?case by simp
next
  case (Cons ref refs)
  then have "ref \<noteq> JNull" by auto
  then have "keepRef ref =
     Inr (truthy (getProp ref (js ''title'')) \<and>
          truthy (getProp ref (js ''originalSourceSentence'')) \<and>
          truthy (getProp ref (js ''citationTag'')))"
    by (cases ref) simp_all
  with Cons show ?case by simp
qed

text \<open>
  C4 as stated fails: a record with a title, a snippet and a tag, but without
  \<open>originalSourceSentence\<close>, is dropped.
\<close>

theorem snippet_only_record_counterexample:
  "truthy (getProp snippetRecord (js ''title'')) \<and>
   truthy (getProp snippetRecord (js ''snippet'')) \<and>
   truthy (getProp snippetRecord (js ''citationTag'')) \<and>
   filterRefs [exampleRecord, snippetRecord] = Inr [exampleRecord]"
  by (simp add: snippetRecord_def exampleRecord_def js_def)

theorem filterRefs_witness:
  "JNull \<notin> set [exampleRecord, JNumber 3, snippetRecord, JObject [], exampleRecord] \<and>
   filterRefs [exampleRecord, JNumber 3, snippetRecord, JObject [], exampleRecord]
     = Inr [exampleRecord, exampleRecord]"
proof -
  have "JNull \<notin> set [exampleRecord, JNumber 3, snippetRecord, JObject [], exampleRecord]"
    by (simp add: exampleRecord_def snippetRecord_def)
  from this filter_keeps_exactly [OF this] show ?thesis
    by (simp add: exampleRecord_def snippetRecord_def js_def)
qed




end
